theory Spec2Isabelle
  imports Main "HOL-Library.AList" "HOL-Library.Sublist"
begin

section \<open>Gmail Bundles: the data model\<close>

text \<open>
  The script \<^verbatim>\<open>gmail-bundles-userscript.js\<close> keeps one process-wide \<^verbatim>\<open>state\<close> object and
  works on the live document of the host page.  The model passes both explicitly.

  \<^item> An email row (\<^verbatim>\<open>.zA\<close>) is a DOM element the script holds by reference: rows live in a
    heap addressed by an element identity, and both the visible table and
    \<^verbatim>\<open>state.bundles\<close> hold identities, so a class written through one is seen through the
    other.
  \<^item> A synthetic bundle row is the element \<^verbatim>\<open>insertBundleDom\<close> creates from the template.  It
    carries the class \<^verbatim>\<open>zA\<close> as well, so every \<^verbatim>\<open>.zA\<close> query returns it among the rows.
  \<^item> The document is the one visible email list: its rows are siblings, and the bundle
    rows the script finds by \<^verbatim>\<open>._js-bundle-<label>\<close>, by \<^verbatim>\<open>[data-bundlename="<label>"]\<close>
    or by \<^verbatim>\<open>._js-bundle\<close> are the bundle rows of that list, identified by their label
    (a label is taken to be text a class selector can carry).
  \<^item> A JavaScript object used as a dictionary is an association list in insertion order
    (a label is taken not to be the name of a member of \<^verbatim>\<open>Object.prototype\<close>).
  \<^item> A JavaScript exception leaves the mutations made before the throw in place: an
    operation returns the error (if any) together with the state it reached.
\<close>

type_synonym label = string
type_synonym eid = nat

datatype js_error = TypeError | DOMException

text \<open>A label chip of a row: the \<^verbatim>\<open>.at\<close> wrapper (text, background colour) with the
  \<^verbatim>\<open>.av\<close> element inside it (same text, text colour).\<close>

record chip =
  c_text :: string
  c_bg :: string
  c_color :: string

record email =
  e_chips :: "chip list"
  e_unread :: bool
  e_is_bundled :: bool
  e_hidden :: bool
  e_display :: string
  e_sender :: "string option"
  e_date :: "string option"

text \<open>A bundle row: the label it is bound to (\<^verbatim>\<open>data-bundlename\<close> and the class
  \<^verbatim>\<open>_js-bundle-<label>\<close>), the two colours, and its three slots: the markup of
  \<^verbatim>\<open>[data-bundle]\<close> and of \<^verbatim>\<open>[data-subject]\<close>, the text of \<^verbatim>\<open>[data-date]\<close>.\<close>

record bundle_row =
  b_label :: label
  b_bg :: string
  b_color :: string
  b_name :: string
  b_senders :: string
  b_date :: string

datatype node = ERow eid | BRow bundle_row

datatype slot = NameSlot | SendersSlot | DateSlot

text \<open>The document: the heap of row elements, the children of the visible email table
  (\<^verbatim>\<open>None\<close> when the page shows no email list) and the log of the assignments made to the
  slots of bundle rows (each one a child-list mutation the observer sees).\<close>

record dom =
  heap :: "eid \<Rightarrow> email"
  table :: "node list option"
  slot_writes :: "(label \<times> slot) list"

type_synonym 'v js_object = "(string \<times> 'v) list"

definition obj_get :: "'v js_object \<Rightarrow> string \<Rightarrow> 'v option" where
  "obj_get obj k = map_of obj k"

definition obj_set :: "string \<Rightarrow> 'v \<Rightarrow> 'v js_object \<Rightarrow> 'v js_object" where
  "obj_set k v obj = AList.update k v obj"

definition obj_delete :: "string \<Rightarrow> 'v js_object \<Rightarrow> 'v js_object" where
  "obj_delete k obj = AList.delete k obj"

text \<open>\<^verbatim>\<open>Object.keys\<close>: the keys that are canonical array indices first, in ascending numeric
  order, then the other keys in insertion order.\<close>

definition is_digit :: "char \<Rightarrow> bool" where
  "is_digit c = (48 \<le> (of_char c :: nat) \<and> (of_char c :: nat) \<le> 57)"

definition digits_val :: "string \<Rightarrow> nat" where
  "digits_val s = foldl (\<lambda>n c. 10 * n + ((of_char c :: nat) - 48)) 0 s"

definition is_array_index :: "string \<Rightarrow> bool" where
  "is_array_index s =
     (s \<noteq> [] \<and> list_all is_digit s \<and> (s = ''0'' \<or> hd s \<noteq> CHR ''0'')
      \<and> digits_val s < 2 ^ 32 - 1)"

definition object_keys :: "'v js_object \<Rightarrow> string list" where
  "object_keys obj =
     (let ks = map fst obj
      in sort_key digits_val (filter is_array_index ks)
         @ filter (\<lambda>k. \<not> is_array_index k) ks)"

record state =
  bundleTemplateHTML :: string
  bundles :: "eid list js_object"
  bundlesVisibility :: "bool js_object"
  bundlesUnread :: "bool js_object"
  bundlesOrder :: "label list"

definition initial_state :: state where
  "initial_state =
     \<lparr>bundleTemplateHTML = [], bundles = [], bundlesVisibility = [],
      bundlesUnread = [], bundlesOrder = []\<rparr>"

section \<open>The Grouping Engine: \<^verbatim>\<open>setBundleStateToEmails\<close>\<close>

text \<open>The three local accumulators of \<^verbatim>\<open>setBundleStateToEmails\<close>.\<close>

record grouping =
  g_bundles :: "eid list js_object"
  g_unread :: "bool js_object"
  g_order :: "label list"

definition empty_grouping :: grouping where
  "empty_grouping = \<lparr>g_bundles = [], g_unread = [], g_order = []\<rparr>"

text \<open>The body of the inner \<^verbatim>\<open>forEach\<close> (lines 284-294), for the row \<open>i\<close> and one of its
  labels.\<close>

definition add_label :: "eid \<Rightarrow> bool \<Rightarrow> label \<Rightarrow> grouping \<Rightarrow> grouping" where
  "add_label i unread l g =
     (let g1 = (if obj_get (g_bundles g) l = None
                then g\<lparr>g_order := g_order g @ [l]\<rparr> else g);
          members = (case obj_get (g_bundles g1) l of None \<Rightarrow> [] | Some m \<Rightarrow> m);
          g2 = g1\<lparr>g_bundles := obj_set l (members @ [i]) (g_bundles g1)\<rparr>
      in if unread then g2\<lparr>g_unread := obj_set l True (g_unread g2)\<rparr> else g2)"


text \<open>The body of the outer \<^verbatim>\<open>forEach\<close> (lines 275-296).\<close>

fun group_email :: "node \<Rightarrow> grouping \<times> dom \<Rightarrow> grouping \<times> dom" where
  "group_email (BRow b) (g, d) = (g, d)"
| "group_email (ERow i) (g, d) =
     (let ls = map c_text (e_chips (heap d i))
      in if ls = [] then (g, d)
         else (fold (add_label i (e_unread (heap d i))) ls g,
               d\<lparr>heap := (heap d)(i := (heap d i)\<lparr>e_is_bundled := True\<rparr>)\<rparr>))"

definition setBundleStateToEmails :: "node list \<Rightarrow> state \<times> dom \<Rightarrow> state \<times> dom" where
  "setBundleStateToEmails emails sd =
     (case fold group_email emails (empty_grouping, snd sd) of
        (g, d') \<Rightarrow>
          ((fst sd)\<lparr>bundlesUnread := g_unread g, bundlesOrder := g_order g,
                    bundles := g_bundles g\<rparr>, d'))"

text \<open>The member list of a label (empty when the label has no bundle).\<close>

definition members :: "state \<Rightarrow> label \<Rightarrow> eid list" where
  "members s l = (case obj_get (bundles s) l of None \<Rightarrow> [] | Some m \<Rightarrow> m)"

text \<open>The spec's label ordering: every label once, at the place of its first occurrence.\<close>

fun first_seen :: "'a list \<Rightarrow> 'a list" where
  "first_seen [] = []"
| "first_seen (x # xs) = x # removeAll x (first_seen xs)"




section \<open>Operations that may throw\<close>

type_synonym 's act = "'s \<Rightarrow> js_error option \<times> 's"

fun for_each :: "('a \<Rightarrow> 's act) \<Rightarrow> 'a list \<Rightarrow> 's act" where
  "for_each f [] s = (None, s)"
| "for_each f (x # xs) s =
     (case f x s of (None, s') \<Rightarrow> for_each f xs s' | (Some e, s') \<Rightarrow> (Some e, s'))"

text \<open>\<^verbatim>\<open>Array.prototype.indexOf\<close> and \<^verbatim>\<open>querySelector\<close>: the first position that matches,
  \<open>None\<close> for \<open>-1\<close> and \<open>null\<close>.\<close>

fun index_of :: "('a \<Rightarrow> bool) \<Rightarrow> 'a list \<Rightarrow> nat option" where
  "index_of P [] = None"
| "index_of P (x # xs) = (if P x then Some 0 else map_option Suc (index_of P xs))"

section \<open>Text\<close>

text \<open>A character stands for a code unit below 256; U+00A0 is \<open>CHR 0xA0\<close>.\<close>

definition EMAIL_DEFAULT_DISPLAY :: string where
  "EMAIL_DEFAULT_DISPLAY = ''flex''"

definition EMAIL_SENDERS_SEPARATOR :: string where
  "EMAIL_SENDERS_SEPARATOR = ''&nbsp;&nbsp;|&nbsp;&nbsp;''"

definition UNICODE_NBSP :: string where
  "UNICODE_NBSP = [CHR 0xA0]"

definition MAX_SENDERS_BUNDLE_DESC :: nat where
  "MAX_SENDERS_BUNDLE_DESC = 3"

definition BUNDLE_UPDATE_DELAY :: nat where
  "BUNDLE_UPDATE_DELAY = 100"

text \<open>\<^verbatim>\<open>String.prototype.trim\<close>: the white space of the one-byte range.\<close>

definition js_space :: "char \<Rightarrow> bool" where
  "js_space c = (c \<in> set [CHR 0x09, CHR 0x0A, CHR 0x0B, CHR 0x0C, CHR 0x0D, CHR 0x20, CHR 0xA0])"

definition trim :: "string \<Rightarrow> string" where
  "trim s = rev (dropWhile js_space (rev (dropWhile js_space s)))"

text \<open>\<^verbatim>\<open>.replace(/&nbsp;/g, UNICODE_NBSP)\<close>; the counter is the number of characters of a
  match still to be skipped.\<close>

fun replace_nbsp_from :: "nat \<Rightarrow> string \<Rightarrow> string" where
  "replace_nbsp_from k [] = []"
| "replace_nbsp_from (Suc k) (c # cs) = replace_nbsp_from k cs"
| "replace_nbsp_from 0 (c # cs) =
     (if take 6 (c # cs) = ''&nbsp;'' then UNICODE_NBSP @ replace_nbsp_from 5 cs
      else c # replace_nbsp_from 0 cs)"

definition replace_nbsp :: "string \<Rightarrow> string" where
  "replace_nbsp s = replace_nbsp_from 0 s"

text \<open>\<^verbatim>\<open>innerText\<close> of an element whose \<^verbatim>\<open>innerHTML\<close> was set to the markup \<open>s\<close>: as the
  comment of lines 256-257 has it, the entity \<^verbatim>\<open>&nbsp;\<close> reads as U+00A0.  (Other entities
  and tags are not modelled.)\<close>

definition rendered_text :: "string \<Rightarrow> string" where
  "rendered_text s = replace_nbsp s"

text \<open>\<^verbatim>\<open>Array.prototype.join\<close>.\<close>

fun join :: "string \<Rightarrow> string list \<Rightarrow> string" where
  "join sep [] = []"
| "join sep [x] = x"
| "join sep (x # y # ys) = x @ sep @ join sep (y # ys)"

text \<open>The decimal numeral of a number, as a template literal prints \<^verbatim>\<open>bundle.length\<close>.\<close>

function string_of_nat :: "nat \<Rightarrow> string" where
  "string_of_nat n =
     (if n < 10 then [char_of (48 + n)]
      else string_of_nat (n div 10) @ [char_of (48 + n mod 10)])"
  by pat_completeness auto
termination
  by (relation "measure id") auto

declare string_of_nat.simps [simp del]

section \<open>The browser\<close>

text \<open>Two things the script leaves to the browser are parameters of the model: the
  serialisation of the cloned and stripped row into the template markup (lines 122-160,
  which throw a \<^verbatim>\<open>TypeError\<close> when the row lacks one of the elements they mark), and the
  contents the three slots of a row have when it is parsed from that markup.\<close>

record browser =
  derive_markup :: "dom \<Rightarrow> node \<Rightarrow> js_error + string"
  template_slots :: "string \<Rightarrow> string \<times> string \<times> string"

section \<open>Queries on the document\<close>

text \<open>\<^verbatim>\<open>querySelectorAll('.BltHke[role=main] .F .zA')\<close>: the rows of the visible table, email
  rows and bundle rows alike.\<close>

definition visible_rows :: "dom \<Rightarrow> node list" where
  "visible_rows d = (case table d of None \<Rightarrow> [] | Some ns \<Rightarrow> ns)"

fun is_bundle_named :: "label \<Rightarrow> node \<Rightarrow> bool" where
  "is_bundle_named l (BRow b) = (b_label b = l)"
| "is_bundle_named l (ERow i) = False"

text \<open>The rows that are not bundle rows (\<^verbatim>\<open>.zA:not(._js-bundle)\<close>), and the labels of the
  bundle rows (\<^verbatim>\<open>._js-bundle\<close>), both in document order.\<close>

fun email_ids :: "node list \<Rightarrow> eid list" where
  "email_ids [] = []"
| "email_ids (ERow i # ns) = i # email_ids ns"
| "email_ids (BRow b # ns) = email_ids ns"

fun bundle_labels :: "node list \<Rightarrow> label list" where
  "bundle_labels [] = []"
| "bundle_labels (ERow i # ns) = bundle_labels ns"
| "bundle_labels (BRow b # ns) = b_label b # bundle_labels ns"

definition insert_node :: "nat \<Rightarrow> node \<Rightarrow> dom \<Rightarrow> dom" where
  "insert_node k n d = d\<lparr>table := Some (take k (visible_rows d) @ n # drop k (visible_rows d))\<rparr>"

definition remove_node :: "nat \<Rightarrow> dom \<Rightarrow> dom" where
  "remove_node k d = d\<lparr>table := Some (take k (visible_rows d) @ drop (Suc k) (visible_rows d))\<rparr>"

text \<open>A value read from an object is truthy when it is \<^verbatim>\<open>true\<close>; a label is truthy when it
  is defined and not the empty string.\<close>

definition flag_set :: "bool js_object \<Rightarrow> label \<Rightarrow> bool" where
  "flag_set obj l = (obj_get obj l = Some True)"

definition truthy_label :: "label option \<Rightarrow> bool" where
  "truthy_label v = (case v of None \<Rightarrow> False | Some l \<Rightarrow> l \<noteq> [])"

definition getVisibleBundleName :: "state \<Rightarrow> label option" where
  "getVisibleBundleName s =
     find (\<lambda>key. flag_set (bundlesVisibility s) key) (object_keys (bundlesVisibility s))"

definition getEmailLabelWrapperOfBundle :: "dom \<Rightarrow> eid \<Rightarrow> label \<Rightarrow> chip option" where
  "getEmailLabelWrapperOfBundle d i l = find (\<lambda>c. c_text c = l) (e_chips (heap d i))"

section \<open>The Visibility Engine\<close>

definition hide_email :: "eid \<Rightarrow> dom \<Rightarrow> dom" where
  "hide_email i d =
     (if e_hidden (heap d i) then d
      else d\<lparr>heap := (heap d)(i := (heap d i)\<lparr>e_hidden := True, e_display := ''none''\<rparr>)\<rparr>)"

text \<open>\<^verbatim>\<open>hideEmails\<close> is handed \<^verbatim>\<open>state.bundles[name]\<close>, which is \<^verbatim>\<open>undefined\<close> for a label
  without a bundle.\<close>

definition hideEmails :: "eid list option \<Rightarrow> dom act" where
  "hideEmails emails d =
     (case emails of None \<Rightarrow> (Some TypeError, d) | Some es \<Rightarrow> (None, fold hide_email es d))"

definition show_email :: "eid \<Rightarrow> dom \<Rightarrow> dom" where
  "show_email i d =
     d\<lparr>heap := (heap d)(i := (heap d i)\<lparr>e_hidden := False, e_display := EMAIL_DEFAULT_DISPLAY\<rparr>)\<rparr>"

definition showUnbundledEmails :: "dom \<Rightarrow> dom" where
  "showUnbundledEmails d =
     fold show_email
       (filter (\<lambda>i. e_hidden (heap d i) \<and> \<not> e_is_bundled (heap d i)) (email_ids (visible_rows d))) d"

section \<open>The Bundle Renderer\<close>

text \<open>\<^verbatim>\<open>getRecentSenders\<close>: at most \<^verbatim>\<open>MAX_SENDERS_BUNDLE_DESC\<close> turns of the loop, which breaks
  at the end of the member list and throws on a row without the sender element.\<close>

fun recent_senders_loop :: "dom \<Rightarrow> nat \<Rightarrow> eid list \<Rightarrow> js_error + string list" where
  "recent_senders_loop d 0 es = Inr []"
| "recent_senders_loop d (Suc k) [] = Inr []"
| "recent_senders_loop d (Suc k) (i # es) =
     (case e_sender (heap d i) of
        None \<Rightarrow> Inl TypeError
      | Some t \<Rightarrow>
          (case recent_senders_loop d k es of Inl e \<Rightarrow> Inl e | Inr ts \<Rightarrow> Inr (t # ts)))"

definition getRecentSenders :: "state \<Rightarrow> dom \<Rightarrow> label \<Rightarrow> js_error + string list" where
  "getRecentSenders s d l =
     (case obj_get (bundles s) l of
        None \<Rightarrow> Inl TypeError
      | Some bundle \<Rightarrow> recent_senders_loop d MAX_SENDERS_BUNDLE_DESC bundle)"

text \<open>Lines 243-246: the name a bundle row shows.\<close>

definition rendered_bundle_name :: "label \<Rightarrow> nat \<Rightarrow> bool \<Rightarrow> bool \<Rightarrow> string" where
  "rendered_bundle_name l n isUnread isBundleOpen =
     (let r0 = l @ '' '' @ ''['' @ string_of_nat n @ '']'';
          r1 = (if isUnread then ''<strong>'' @ r0 @ ''</strong>'' else r0)
      in if isBundleOpen then ''<u>'' @ r1 @ ''</u>'' else r1)"

text \<open>Lines 253-263: the three guarded assignments, with the list of the slots written.
  Reading \<^verbatim>\<open>innerHTML\<close> of the name slot gives back the markup last written to it (the
  label is taken to be free of characters the serialiser escapes, as the class selector
  built from it needs anyway).\<close>

definition write_name :: "string \<Rightarrow> slot list \<times> bundle_row \<Rightarrow> slot list \<times> bundle_row" where
  "write_name renderedBundleName wb =
     (if trim (b_name (snd wb)) \<noteq> trim renderedBundleName
      then (fst wb @ [NameSlot], (snd wb)\<lparr>b_name := renderedBundleName\<rparr>) else wb)"

definition write_senders :: "string list \<Rightarrow> slot list \<times> bundle_row \<Rightarrow> slot list \<times> bundle_row" where
  "write_senders recentSenders wb =
     (if trim (rendered_text (b_senders (snd wb)))
           \<noteq> trim (join (replace_nbsp EMAIL_SENDERS_SEPARATOR) recentSenders)
      then (fst wb @ [SendersSlot],
            (snd wb)\<lparr>b_senders := join EMAIL_SENDERS_SEPARATOR recentSenders\<rparr>)
      else wb)"

definition write_date :: "string \<Rightarrow> slot list \<times> bundle_row \<Rightarrow> slot list \<times> bundle_row" where
  "write_date emailDate wb =
     (if trim (b_date (snd wb)) \<noteq> trim emailDate
      then (fst wb @ [DateSlot], (snd wb)\<lparr>b_date := emailDate\<rparr>) else wb)"

definition render_row ::
  "string \<Rightarrow> string list \<Rightarrow> string \<Rightarrow> bundle_row \<Rightarrow> slot list \<times> bundle_row" where
  "render_row renderedBundleName recentSenders emailDate b =
     write_date emailDate (write_senders recentSenders (write_name renderedBundleName ([], b)))"

fun render_node :: "string \<Rightarrow> string list \<Rightarrow> string \<Rightarrow> node \<Rightarrow> slot list \<times> node" where
  "render_node n ss dt (BRow b) = (case render_row n ss dt b of (ws, b') \<Rightarrow> (ws, BRow b'))"
| "render_node n ss dt (ERow i) = ([], ERow i)"

definition updateBundleDom :: "state \<Rightarrow> label \<Rightarrow> dom act" where
  "updateBundleDom s l d =
     (case index_of (is_bundle_named l) (visible_rows d) of
        None \<Rightarrow> (None, d)
      | Some k \<Rightarrow>
         (case obj_get (bundles s) l of
            None \<Rightarrow> (Some TypeError, d)
          | Some [] \<Rightarrow> (Some TypeError, d)
          | Some (latestEmail # rest) \<Rightarrow>
             (case getRecentSenders s d l of
                Inl e \<Rightarrow> (Some e, d)
              | Inr recentSenders \<Rightarrow>
                 (case e_date (heap d latestEmail) of
                    None \<Rightarrow> (Some TypeError, d)
                  | Some emailDate \<Rightarrow>
                     (let isUnread = (e_unread (heap d latestEmail) \<or> flag_set (bundlesUnread s) l);
                          name = rendered_bundle_name l (length (latestEmail # rest)) isUnread
                                   (flag_set (bundlesVisibility s) l);
                          (ws, n') = render_node name recentSenders emailDate (visible_rows d ! k)
                      in (None, d\<lparr>table := Some ((visible_rows d)[k := n']),
                                   slot_writes := slot_writes d @ map (Pair l) ws\<rparr>))))))"

text \<open>\<^verbatim>\<open>insertBundleDom\<close>.  \<open>email\<close> is \<open>None\<close> when the caller passes \<^verbatim>\<open>undefined\<close>.  A row
  that is not in the table has no parent, and \<^verbatim>\<open>insertAdjacentHTML\<close> throws on it; an empty
  template inserts nothing, and \<^verbatim>\<open>addEventListener\<close> is then called on \<^verbatim>\<open>null\<close>.\<close>

definition insertBundleDom :: "browser \<Rightarrow> state \<Rightarrow> eid option \<Rightarrow> label \<Rightarrow> bool \<Rightarrow> dom act" where
  "insertBundleDom B s email l isPlacedAfter d =
     (case obj_get (bundles s) l of
        None \<Rightarrow> (Some TypeError, d)
      | Some bundle \<Rightarrow>
         if index_of (is_bundle_named l) (visible_rows d) \<noteq> None then (None, d)
         else
          (case bundle of
             [] \<Rightarrow> (Some TypeError, d)
           | latestBundledEmail # rest \<Rightarrow>
              (case email of
                 None \<Rightarrow> (Some TypeError, d)
               | Some e \<Rightarrow>
                  (case getEmailLabelWrapperOfBundle d latestBundledEmail l of
                     None \<Rightarrow> (Some TypeError, d)
                   | Some wrapper \<Rightarrow>
                      (case index_of (\<lambda>n. n = ERow e) (visible_rows d) of
                         None \<Rightarrow> (Some DOMException, d)
                       | Some k \<Rightarrow>
                          if bundleTemplateHTML s = [] then (Some TypeError, d)
                          else
                           (case template_slots B (bundleTemplateHTML s) of
                              (n0, s0, d0) \<Rightarrow>
                                updateBundleDom s l
                                  (insert_node (if isPlacedAfter then Suc k else k)
                                     (BRow \<lparr>b_label = l, b_bg = c_bg wrapper,
                                            b_color = c_color wrapper, b_name = n0,
                                            b_senders = s0, b_date = d0\<rparr>) d)))))))"

text \<open>The body of the loop of \<^verbatim>\<open>moveBundleDoms\<close>, for one bundle name.\<close>

definition move_bundle :: "browser \<Rightarrow> state \<Rightarrow> eid option \<Rightarrow> bool \<Rightarrow> label \<Rightarrow> dom act" where
  "move_bundle B s email isPlacedAfter l d =
     (case email of
        None \<Rightarrow> (Some TypeError, d)
      | Some e \<Rightarrow>
         (case index_of (\<lambda>n. n = ERow e) (visible_rows d) of
            None \<Rightarrow> (Some TypeError, d)
          | Some k \<Rightarrow>
             (case index_of (is_bundle_named l) (visible_rows d) of
                None \<Rightarrow> (Some TypeError, d)
              | Some j \<Rightarrow>
                 if (if isPlacedAfter then k \<le> j else j < k) then (None, d)
                 else insertBundleDom B s email l isPlacedAfter (remove_node j d))))"

definition moveBundleDoms :: "browser \<Rightarrow> state \<Rightarrow> eid option \<Rightarrow> label list \<Rightarrow> bool \<Rightarrow> dom act" where
  "moveBundleDoms B s email bundleNames isPlacedAfter d =
     for_each (move_bundle B s email isPlacedAfter) (rev bundleNames) d"

text \<open>\<^verbatim>\<open>[...state.bundlesOrder].splice(state.bundlesOrder.indexOf(name) + 1, length)\<close>.\<close>

definition bundles_after :: "state \<Rightarrow> label \<Rightarrow> label list" where
  "bundles_after s name =
     (case index_of (\<lambda>x. x = name) (bundlesOrder s) of
        None \<Rightarrow> bundlesOrder s
      | Some k \<Rightarrow> drop (Suc k) (bundlesOrder s))"

definition first_of :: "'a list \<Rightarrow> 'a option" where
  "first_of xs = (case xs of [] \<Rightarrow> None | x # _ \<Rightarrow> Some x)"

definition last_of :: "'a list \<Rightarrow> 'a option" where
  "last_of xs = (if xs = [] then None else Some (last xs))"

text \<open>\<^verbatim>\<open>resetBundleDomsPosition\<close> declares no parameter: what a caller passes is dropped.\<close>

definition resetBundleDomsPosition :: "browser \<Rightarrow> state \<Rightarrow> dom act" where
  "resetBundleDomsPosition B s d =
     (let visibleBundleName = getVisibleBundleName s
      in if truthy_label visibleBundleName then
           (case obj_get (bundles s) (the visibleBundleName) of
              None \<Rightarrow> (Some TypeError, d)
            | Some visibleBundle \<Rightarrow>
                moveBundleDoms B s (last_of visibleBundle)
                  (bundles_after s (the visibleBundleName)) True d)
         else
           for_each (\<lambda>bundleName. moveBundleDoms B s (first_of (members s bundleName))
                                    [bundleName] False)
             (object_keys (bundles s)) d)"

text \<open>\<^verbatim>\<open>$emailsToHide.splice($emailsToHide.indexOf($email), 1)\<close>: for a row that is not in the
  list the index is \<open>-1\<close>, and \<^verbatim>\<open>splice\<close> removes the last element.\<close>

definition splice_out :: "eid \<Rightarrow> eid list \<Rightarrow> eid list" where
  "splice_out e xs =
     (case index_of (\<lambda>x. x = e) xs of
        None \<Rightarrow> butlast xs
      | Some k \<Rightarrow> take k xs @ drop (Suc k) xs)"

definition unhide_email :: "eid \<Rightarrow> dom \<Rightarrow> dom" where
  "unhide_email i d = (if e_hidden (heap d i) then show_email i d else d)"

fun show_member :: "eid \<Rightarrow> eid list \<times> dom \<Rightarrow> eid list \<times> dom" where
  "show_member e (emailsToHide, d) = (splice_out e emailsToHide, unhide_email e d)"

definition showBundledEmails :: "browser \<Rightarrow> state \<Rightarrow> label \<Rightarrow> dom act" where
  "showBundledEmails B s l d =
     (case obj_get (bundles s) l of
        None \<Rightarrow> (Some TypeError, d)
      | Some bundle \<Rightarrow>
         (case fold show_member bundle (email_ids (visible_rows d), d) of
            (emailsToHide, d1) \<Rightarrow> resetBundleDomsPosition B s (fold hide_email emailsToHide d1)))"

section \<open>The toggle protocol: \<^verbatim>\<open>onBundleClick\<close>\<close>

text \<open>\<^verbatim>\<open>turnOffBundleVisibility\<close> (lines 170-176).  The list \<^verbatim>\<open>bundlesResetPosition\<close> it computes
  (the bundles ordered after the one it closes) is handed to \<^verbatim>\<open>resetBundleDomsPosition\<close>,
  which has no parameter, and so has no effect.\<close>

definition turnOffBundleVisibility :: "browser \<Rightarrow> state \<Rightarrow> label \<Rightarrow> dom act" where
  "turnOffBundleVisibility B s l d =
     (case hideEmails (obj_get (bundles s) l) d of
        (Some e, d1) \<Rightarrow> (Some e, d1)
      | (None, d1) \<Rightarrow> resetBundleDomsPosition B s (showUnbundledEmails d1))"

definition set_visibility :: "label \<Rightarrow> bool \<Rightarrow> state \<Rightarrow> state" where
  "set_visibility l v s = s\<lparr>bundlesVisibility := obj_set l v (bundlesVisibility s)\<rparr>"

text \<open>Lines 179-183: the bundle that is open is closed first.\<close>

definition close_visible :: "browser \<Rightarrow> label \<Rightarrow> (state \<times> dom) act" where
  "close_visible B l sd =
     (let visibleBundleName = getVisibleBundleName (fst sd)
      in if obj_get (bundlesVisibility (fst sd)) l = Some False \<and> truthy_label visibleBundleName
         then (let s1 = set_visibility (the visibleBundleName) False (fst sd)
               in case turnOffBundleVisibility B s1 (the visibleBundleName) (snd sd) of
                    (r, d1) \<Rightarrow> (r, s1, d1))
         else (None, sd))"

text \<open>Lines 185-192: the clicked bundle is toggled and rendered again.\<close>

definition toggle_clicked :: "browser \<Rightarrow> label \<Rightarrow> (state \<times> dom) act" where
  "toggle_clicked B l sd =
     (let s2 = set_visibility l (\<not> flag_set (bundlesVisibility (fst sd)) l) (fst sd)
      in case (if flag_set (bundlesVisibility s2) l then showBundledEmails B s2 l (snd sd)
               else turnOffBundleVisibility B s2 l (snd sd)) of
           (Some e, d2) \<Rightarrow> (Some e, s2, d2)
         | (None, d2) \<Rightarrow> (case updateBundleDom s2 l d2 of (r, d3) \<Rightarrow> (r, s2, d3)))"

definition onBundleClick :: "browser \<Rightarrow> label \<Rightarrow> (state \<times> dom) act" where
  "onBundleClick B l sd =
     (case close_visible B l sd of
        (Some e, sd1) \<Rightarrow> (Some e, sd1)
      | (None, sd1) \<Rightarrow> toggle_clicked B l sd1)"

text \<open>A sequence of clicks: each handler runs on what the one before left, whether it
  returned or threw.\<close>

fun clicks :: "browser \<Rightarrow> label list \<Rightarrow> state \<times> dom \<Rightarrow> state \<times> dom" where
  "clicks B [] sd = sd"
| "clicks B (l # ls) sd = clicks B ls (snd (onBundleClick B l sd))"

text \<open>The labels whose open flag is \<^verbatim>\<open>true\<close>.\<close>

definition open_labels :: "state \<Rightarrow> label list" where
  "open_labels s =
     filter (flag_set (bundlesVisibility s)) (remdups (map fst (bundlesVisibility s)))"

definition at_most_one_open :: "state \<Rightarrow> bool" where
  "at_most_one_open s = (length (open_labels s) \<le> 1)"

text \<open>The invariant of the toggle protocol: at most one label is open, the labels that
  have a flag are the set \<open>K\<close>, and the empty string is not among them.\<close>

definition closed_or_one :: "label set \<Rightarrow> state \<Rightarrow> bool" where
  "closed_or_one K s \<longleftrightarrow>
     at_most_one_open s \<and> fst ` set (bundlesVisibility s) = K \<and> [] \<notin> K"

section \<open>The Template Synthesizer: \<^verbatim>\<open>initBundleTemplateHTML\<close>\<close>

text \<open>The function reads the document and works on a detached clone: it writes to the
  state only.  With no row in the visible table \<^verbatim>\<open>$emails[$emails.length - 1]\<close> is
  \<^verbatim>\<open>undefined\<close> and \<^verbatim>\<open>$email.cloneNode\<close> throws.\<close>

definition initBundleTemplateHTML :: "browser \<Rightarrow> dom \<Rightarrow> state act" where
  "initBundleTemplateHTML B d s =
     (if bundleTemplateHTML s \<noteq> [] then (None, s)
      else
       (case last_of (visible_rows d) of
          None \<Rightarrow> (Some TypeError, s)
        | Some email \<Rightarrow>
           (case derive_markup B d email of
              Inl e \<Rightarrow> (Some e, s)
            | Inr html \<Rightarrow> (None, s\<lparr>bundleTemplateHTML := html\<rparr>))))"

section \<open>The cycle: \<^verbatim>\<open>runBundlizer\<close>\<close>

text \<open>Lines 440-450, for one bundle row of the snapshot, bound to the label \<open>l\<close>.  The rows
  bound to one label are orphans together, so removing the first of them at each turn
  leaves what removing each in its turn leaves.\<close>

definition remove_bundle_row :: "label \<Rightarrow> dom \<Rightarrow> dom" where
  "remove_bundle_row l d =
     (case index_of (is_bundle_named l) (visible_rows d) of
        None \<Rightarrow> d
      | Some j \<Rightarrow> remove_node j d)"

definition remove_orphan :: "label list \<Rightarrow> label \<Rightarrow> state \<times> dom \<Rightarrow> state \<times> dom" where
  "remove_orphan bundleNames l sd =
     (if l \<in> set bundleNames then sd
      else
       (let d1 = (if flag_set (bundlesVisibility (fst sd)) l then showUnbundledEmails (snd sd)
                  else snd sd)
        in ((fst sd)\<lparr>bundlesVisibility := obj_delete l (bundlesVisibility (fst sd))\<rparr>,
            remove_bundle_row l d1)))"

definition removeOrphans :: "label list \<Rightarrow> state \<times> dom \<Rightarrow> state \<times> dom" where
  "removeOrphans bundleNames sd =
     fold (remove_orphan bundleNames) (bundle_labels (visible_rows (snd sd))) sd"

text \<open>Lines 452-471, for one bundle name.\<close>

definition cycle_bundle :: "browser \<Rightarrow> label \<Rightarrow> (state \<times> dom) act" where
  "cycle_bundle B l sd =
     (let s1 = set_visibility l (flag_set (bundlesVisibility (fst sd)) l) (fst sd)
      in case (if index_of (is_bundle_named l) (visible_rows (snd sd)) = None
               then insertBundleDom B s1 (first_of (members s1 l)) l False (snd sd)
               else updateBundleDom s1 l (snd sd)) of
           (Some e, d1) \<Rightarrow> (Some e, s1, d1)
         | (None, d1) \<Rightarrow>
             if \<not> flag_set (bundlesVisibility s1) l
             then (case hideEmails (obj_get (bundles s1) l) d1 of (r, d2) \<Rightarrow> (r, s1, d2))
             else (None, s1, d1))"

text \<open>Lines 472-483.\<close>

definition finish_cycle :: "browser \<Rightarrow> (state \<times> dom) act" where
  "finish_cycle B sd =
     (case resetBundleDomsPosition B (fst sd) (snd sd) of
        (Some e, d1) \<Rightarrow> (Some e, fst sd, d1)
      | (None, d1) \<Rightarrow>
          (let visibleBundleName = getVisibleBundleName (fst sd)
           in if truthy_label visibleBundleName
              then (case showBundledEmails B (fst sd) (the visibleBundleName) d1 of
                      (r, d2) \<Rightarrow> (r, fst sd, d2))
              else (None, fst sd, d1)))"

definition runBundlizer :: "browser \<Rightarrow> (state \<times> dom) act" where
  "runBundlizer B sd =
     (case initBundleTemplateHTML B (snd sd) (fst sd) of
        (Some e, s0) \<Rightarrow> (Some e, s0, snd sd)
      | (None, s0) \<Rightarrow>
         (case table (snd sd) of
            None \<Rightarrow> (None, s0, snd sd)
          | Some emails \<Rightarrow>
             (let sd1 = setBundleStateToEmails emails (s0, snd sd);
                  bundleNames = object_keys (bundles (fst sd1))
              in case for_each (cycle_bundle B) bundleNames (removeOrphans bundleNames sd1) of
                   (Some e, sd3) \<Rightarrow> (Some e, sd3)
                 | (None, sd3) \<Rightarrow> finish_cycle B sd3)))"

section \<open>The Change Detector: \<^verbatim>\<open>debounce\<close>\<close>

text \<open>Time is counted in milliseconds.  The closure variable \<^verbatim>\<open>timeout\<close> holds a timer handle
  exactly while a timer is armed (\<^verbatim>\<open>later\<close> sets it to \<^verbatim>\<open>null\<close> when the timer fires), so it
  is modelled by the time the armed timer is due; \<open>calls\<close> logs the times at which \<^verbatim>\<open>func\<close>
  was applied.  A timer runs at the time it is due, before an event of that same time.\<close>

record debounced =
  timeout :: "nat option"
  calls :: "nat list"

definition later :: "bool \<Rightarrow> nat \<Rightarrow> debounced \<Rightarrow> debounced" where
  "later immediate t st =
     (let st1 = st\<lparr>timeout := None\<rparr>
      in if \<not> immediate then st1\<lparr>calls := calls st1 @ [t]\<rparr> else st1)"

text \<open>The function \<^verbatim>\<open>debounce\<close> returns, called at time \<open>t\<close>: \<^verbatim>\<open>clearTimeout\<close> disarms the
  timer, \<^verbatim>\<open>setTimeout\<close> arms a new one.\<close>

definition debounced_call :: "nat \<Rightarrow> bool \<Rightarrow> nat \<Rightarrow> debounced \<Rightarrow> debounced" where
  "debounced_call wait immediate t st =
     (let callNow = (immediate \<and> timeout st = None);
          st1 = st\<lparr>timeout := Some (t + wait)\<rparr>
      in if callNow then st1\<lparr>calls := calls st1 @ [t]\<rparr> else st1)"

text \<open>The event loop: the armed timer runs once the clock has reached its time.\<close>

definition advance_to :: "bool \<Rightarrow> nat \<Rightarrow> debounced \<Rightarrow> debounced" where
  "advance_to immediate t st =
     (case timeout st of
        None \<Rightarrow> st
      | Some due \<Rightarrow> if due \<le> t then later immediate due st else st)"

fun run_events :: "nat \<Rightarrow> bool \<Rightarrow> nat list \<Rightarrow> debounced \<Rightarrow> debounced" where
  "run_events wait immediate [] st = st"
| "run_events wait immediate (t # ts) st =
     run_events wait immediate ts (debounced_call wait immediate t (advance_to immediate t st))"

text \<open>No further event: the clock runs on until the armed timer, if any, has run.\<close>

definition quiesce :: "bool \<Rightarrow> debounced \<Rightarrow> debounced" where
  "quiesce immediate st =
     (case timeout st of None \<Rightarrow> st | Some due \<Rightarrow> later immediate due st)"

definition idle :: debounced where
  "idle = \<lparr>timeout = None, calls = []\<rparr>"

text \<open>A burst: the events come in time order, each less than the window after the one
  before.\<close>

fun burst :: "nat \<Rightarrow> nat list \<Rightarrow> bool" where
  "burst wait [] = True"
| "burst wait [t] = True"
| "burst wait (t # u # ts) = (t \<le> u \<and> u < t + wait \<and> burst wait (u # ts))"

section \<open>Orphans and frames\<close>

text \<open>A row the orphan clean-up keeps: an email row, or a bundle row bound to one of the
  bundle names of this cycle.\<close>

fun keep_row :: "label list \<Rightarrow> node \<Rightarrow> bool" where
  "keep_row names (ERow i) = True"
| "keep_row names (BRow b) = (b_label b \<in> set names)"


text \<open>Frames of an operation on the document: it leaves the email rows of the list as
  they are and adds bundle rows for labels of \<open>A\<close> only; it hides rows of \<open>H\<close> only.\<close>

definition labels_frame :: "label set \<Rightarrow> dom \<Rightarrow> dom \<Rightarrow> bool" where
  "labels_frame A d d' \<longleftrightarrow>
     email_ids (visible_rows d') = email_ids (visible_rows d)
     \<and> set (bundle_labels (visible_rows d')) \<subseteq> set (bundle_labels (visible_rows d)) \<union> A"

definition hidden_frame :: "eid set \<Rightarrow> dom \<Rightarrow> dom \<Rightarrow> bool" where
  "hidden_frame H d d' \<longleftrightarrow>
     (\<forall>i. e_hidden (heap d' i) \<longrightarrow> e_hidden (heap d i) \<or> i \<in> H)"

section \<open>A small mailbox\<close>

text \<open>Four rows, as the host would list them: two labelled Work (the second one Home as
  well, and unread), one without a label, one labelled Home.\<close>

definition mk_email :: "label list \<Rightarrow> bool \<Rightarrow> string \<Rightarrow> string \<Rightarrow> email" where
  "mk_email ls unread sender sent =
     \<lparr>e_chips = map (\<lambda>l. \<lparr>c_text = l, c_bg = ''rgb(221, 221, 221)'',
                          c_color = ''rgb(102, 102, 102)''\<rparr>) ls,
      e_unread = unread, e_is_bundled = False, e_hidden = False, e_display = [],
      e_sender = Some sender, e_date = Some sent\<rparr>"

definition no_email :: email where
  "no_email =
     \<lparr>e_chips = [], e_unread = False, e_is_bundled = False, e_hidden = False,
      e_display = [], e_sender = None, e_date = None\<rparr>"

definition demo_heap :: "eid \<Rightarrow> email" where
  "demo_heap i =
     (if i = 0 then mk_email [''Work''] False ''Ann'' ''Nov 2''
      else if i = 1 then mk_email [] False ''Bob'' ''Nov 1''
      else if i = 2 then mk_email [''Work'', ''Home''] True ''Cy'' ''Oct 30''
      else if i = 3 then mk_email [''Home''] False ''Di'' ''Oct 29''
      else no_email)"

definition demo_dom :: dom where
  "demo_dom =
     \<lparr>heap = demo_heap, table = Some [ERow 0, ERow 1, ERow 2, ERow 3], slot_writes = []\<rparr>"

definition demo_browser :: browser where
  "demo_browser =
     \<lparr>derive_markup = (\<lambda>d n. Inr ''<div class={CLASS}>{BUNDLE_NAME}</div>''),
      template_slots = (\<lambda>html. (''sender'', ''subject'', ''date''))\<rparr>"

section \<open>Scenarios\<close>

text \<open>A page without an email list, and a browser whose serialisation fails.\<close>

definition other_page :: dom where
  "other_page = \<lparr>heap = (\<lambda>i. no_email), table = None, slot_writes = []\<rparr>"

definition failing_browser :: browser where
  "failing_browser =
     \<lparr>derive_markup = (\<lambda>d n. Inl TypeError), template_slots = (\<lambda>html. ([], [], []))\<rparr>"

text \<open>The state the first cycle computes for the small mailbox, a bundle row as it comes
  out of the template, and the document just after the row for Work has been
  inserted.\<close>

definition demo_state :: state where
  "demo_state =
     \<lparr>bundleTemplateHTML = ''<div class={CLASS}>{BUNDLE_NAME}</div>'',
      bundles = [(''Work'', [0, 2]), (''Home'', [2, 3])],
      bundlesVisibility = [(''Work'', False), (''Home'', False)],
      bundlesUnread = [(''Work'', True), (''Home'', True)],
      bundlesOrder = [''Work'', ''Home'']\<rparr>"

definition fresh_row :: "label \<Rightarrow> bundle_row" where
  "fresh_row l =
     \<lparr>b_label = l, b_bg = ''rgb(221, 221, 221)'', b_color = ''rgb(102, 102, 102)'',
      b_name = ''sender'', b_senders = ''subject'', b_date = ''date''\<rparr>"


text \<open>A mailbox whose only row comes from a sender whose name contains the six characters
  \<^verbatim>\<open>&nbsp;\<close>.\<close>

definition entity_heap :: "eid \<Rightarrow> email" where
  "entity_heap i = (if i = 0 then mk_email [''Work''] False ''Tips&nbsp;Tricks'' ''Nov 2'' else no_email)"

definition entity_state :: state where
  "entity_state =
     \<lparr>bundleTemplateHTML = ''<div class={CLASS}>{BUNDLE_NAME}</div>'',
      bundles = [(''Work'', [0])], bundlesVisibility = [(''Work'', False)],
      bundlesUnread = [], bundlesOrder = [''Work'']\<rparr>"

definition entity_dom :: dom where
  "entity_dom =
     \<lparr>heap = entity_heap, table = Some [BRow (fresh_row ''Work''), ERow 0], slot_writes = []\<rparr>"

text \<open>State and document after the first cycle on the small mailbox.\<close>

definition demo_cycle :: "state \<times> dom" where
  "demo_cycle = snd (runBundlizer demo_browser (initial_state, demo_dom))"


definition home_open :: "state \<times> dom" where
  "home_open = snd (onBundleClick demo_browser ''Home'' demo_cycle)"

text \<open>The host lists a new row on top.\<close>

definition host_inserts :: "eid \<Rightarrow> email \<Rightarrow> state \<times> dom \<Rightarrow> state \<times> dom" where
  "host_inserts i e sd =
     (fst sd, (snd sd)\<lparr>heap := (heap (snd sd))(i := e),
                        table := Some (ERow i # visible_rows (snd sd))\<rparr>)"


text \<open>The rows of a list, each bundle row shown by its label.\<close>

fun row_tags :: "node list \<Rightarrow> (label + eid) list" where
  "row_tags [] = []"
| "row_tags (ERow i # ns) = Inr i # row_tags ns"
| "row_tags (BRow b # ns) = Inl (b_label b) # row_tags ns"




text \<open>While Home is open, a new row labelled Work arrives and a cycle runs.\<close>

definition new_work :: "state \<times> dom" where
  "new_work = snd (runBundlizer demo_browser (host_inserts 4 (mk_email [''Work''] False ''Eve'' ''Nov 3'') home_open))"

section \<open>Properties\<close>

lemma obj_get_set: "obj_get (obj_set k v obj) k' = (if k' = k then Some v else obj_get obj k')"
  by (simp add: obj_get_def obj_set_def update_conv')

subsection \<open>Grouping\<close>


lemma set_first_seen [simp]: "set (first_seen xs) = set xs"
  by (induction xs) auto

lemma distinct_first_seen [simp]: "distinct (first_seen xs)"
  by (induction xs) (auto simp: distinct_removeAll)











lemma obj_get_Nil [simp]: "obj_get [] k = None"
  by (simp add: obj_get_def)










subsection \<open>Debounce\<close>

lemma run_events_pending:
  "burst wait (p # ts) \<Longrightarrow> timeout st = Some (p + wait) \<Longrightarrow>
     calls (run_events wait False ts st) = calls st
     \<and> timeout (run_events wait False ts st) = Some (last (p # ts) + wait)"
proof (induction ts arbitrary: p st)
  case Nil
  then show ?case by simp
next
  case (Cons t ts)
  let ?st' = "debounced_call wait False t (advance_to False t st)"
  from Cons.prems have le: "p \<le> t" "t < p + wait" and b: "burst wait (t # ts)"
    by simp_all
  have adv: "advance_to False t st = st"
    using le Cons.prems(2) by (simp add: advance_to_def)
  have st': "timeout ?st' = Some (t + wait)" "calls ?st' = calls st"
    by (simp_all add: adv debounced_call_def Let_def)
  from Cons.IH [OF b st'(1)] st'(2) show ?case
    by simp
qed

text \<open>
  Claim C9 (trailing-edge debounce).  \<^verbatim>\<open>init\<close> wraps the cycle as
  \<^verbatim>\<open>debounce(runBundlizer, BUNDLE_UPDATE_DELAY)\<close>, so \<^verbatim>\<open>immediate\<close> is falsy.  For every
  non-empty burst of events, each less than the window after the one before, the wrapped
  function is not applied while the burst lasts (in particular not on the leading edge),
  the last event leaves the timer armed for its own time plus the window, and the
  function is applied exactly once, at that time.
\<close>

theorem debounce_trailing_edge:
  assumes "ts \<noteq> []" and "burst wait ts"
  shows "calls (run_events wait False ts idle) = []
       \<and> timeout (run_events wait False ts idle) = Some (last ts + wait)
       \<and> calls (quiesce False (run_events wait False ts idle)) = [last ts + wait]
       \<and> timeout (quiesce False (run_events wait False ts idle)) = None"
proof -
  from assms(1) obtain t ts' where ts: "ts = t # ts'"
    by (cases ts) auto
  let ?st = "debounced_call wait False t (advance_to False t idle)"
  have st: "timeout ?st = Some (t + wait)" "calls ?st = []"
    by (simp_all add: advance_to_def idle_def debounced_call_def Let_def)
  from run_events_pending [OF assms(2) [unfolded ts] st(1)] st(2)
  have "calls (run_events wait False ts idle) = []"
    and "timeout (run_events wait False ts idle) = Some (last ts + wait)"
    by (simp_all add: ts)
  then show ?thesis
    by (simp add: quiesce_def later_def Let_def)
qed

text \<open>Three mutations at 0, 40 and 90 ms with the script's window of 100 ms: one cycle, at
  190 ms.\<close>

theorem debounce_trailing_edge_witness:
  "[0, 40, 90] \<noteq> ([] :: nat list) \<and> burst BUNDLE_UPDATE_DELAY [0, 40, 90]
   \<and> calls (run_events BUNDLE_UPDATE_DELAY False [0, 40, 90] idle) = []
   \<and> calls (quiesce False (run_events BUNDLE_UPDATE_DELAY False [0, 40, 90] idle)) = [190]"
proof -
  have b: "burst BUNDLE_UPDATE_DELAY [0, 40, 90]"
    by (simp add: BUNDLE_UPDATE_DELAY_def)
  have n: "[0, 40, 90] \<noteq> ([] :: nat list)"
    by simp
  from debounce_trailing_edge [OF n b] b show ?thesis
    by (simp add: BUNDLE_UPDATE_DELAY_def)
qed

subsection \<open>Template derivation\<close>

text \<open>
  Claim C8 (the template is derived once).  A call of \<^verbatim>\<open>initBundleTemplateHTML\<close> made while
  the cached template is not empty returns at once and leaves the state as it is (the
  function never writes to the document).  Hence, once a first call has stored a
  non-empty template, the result of a second call depends neither on the browser's
  serialisation nor on the document: the clone/strip/mark work is not done again.
\<close>

theorem template_derived_once:
  "(bundleTemplateHTML s \<noteq> [] \<longrightarrow> initBundleTemplateHTML B d s = (None, s))
   \<and> (initBundleTemplateHTML B d s = (None, s') \<and> bundleTemplateHTML s' \<noteq> [] \<longrightarrow>
        (\<forall>B' d'. initBundleTemplateHTML B' d' s' = (None, s')))"
  by (simp add: initBundleTemplateHTML_def)

text \<open>The first call on the small mailbox stores the markup; the second, even with a
  serialisation that would throw and on a page without rows, returns the same state.\<close>

theorem template_derived_once_witness:
  "initBundleTemplateHTML demo_browser demo_dom initial_state
     = (None, initial_state\<lparr>bundleTemplateHTML := ''<div class={CLASS}>{BUNDLE_NAME}</div>''\<rparr>)
   \<and> initBundleTemplateHTML failing_browser other_page
        (initial_state\<lparr>bundleTemplateHTML := ''<div class={CLASS}>{BUNDLE_NAME}</div>''\<rparr>)
     = (None, initial_state\<lparr>bundleTemplateHTML := ''<div class={CLASS}>{BUNDLE_NAME}</div>''\<rparr>)"
proof -
  have first: "initBundleTemplateHTML demo_browser demo_dom initial_state
     = (None, initial_state\<lparr>bundleTemplateHTML := ''<div class={CLASS}>{BUNDLE_NAME}</div>''\<rparr>)"
    by (simp add: initBundleTemplateHTML_def initial_state_def demo_dom_def demo_browser_def
          visible_rows_def last_of_def)
  have cached: "bundleTemplateHTML
      (initial_state\<lparr>bundleTemplateHTML := ''<div class={CLASS}>{BUNDLE_NAME}</div>''\<rparr>) \<noteq> []"
    by simp
  from template_derived_once [of initial_state demo_browser demo_dom
      "initial_state\<lparr>bundleTemplateHTML := ''<div class={CLASS}>{BUNDLE_NAME}</div>''\<rparr>"]
    first cached
  show ?thesis by blast
qed

text \<open>
  Claim C10 (unguarded precondition of the derivation).  With an empty template cache and
  no row in the visible list (in particular on a page without an email list),
  \<^verbatim>\<open>initBundleTemplateHTML\<close> throws a \<^verbatim>\<open>TypeError\<close>, and since \<^verbatim>\<open>runBundlizer\<close> calls it before it
  looks for the table, the cycle is aborted with state and document untouched.
\<close>

theorem template_needs_a_row:
  assumes "bundleTemplateHTML s = []" and "visible_rows d = []"
  shows "initBundleTemplateHTML B d s = (Some TypeError, s)
       \<and> runBundlizer B (s, d) = (Some TypeError, s, d)"
  using assms by (simp add: initBundleTemplateHTML_def runBundlizer_def last_of_def)

text \<open>The first cycle on a page without an email list.\<close>

theorem template_needs_a_row_witness:
  "bundleTemplateHTML initial_state = [] \<and> visible_rows other_page = []
   \<and> initBundleTemplateHTML demo_browser other_page initial_state = (Some TypeError, initial_state)
   \<and> runBundlizer demo_browser (initial_state, other_page)
       = (Some TypeError, initial_state, other_page)"
proof -
  have a: "bundleTemplateHTML initial_state = []"
    by (simp add: initial_state_def)
  have b: "visible_rows other_page = []"
    by (simp add: visible_rows_def other_page_def)
  from template_needs_a_row [OF a b, of demo_browser] a b show ?thesis
    by simp
qed

subsection \<open>Rendering a bundle row\<close>

lemma index_of_SomeD: "index_of P xs = Some k \<Longrightarrow> k < length xs \<and> P (xs ! k)"
proof (induction xs arbitrary: k)
  case Nil
  then show ?case by simp
next
  case (Cons x xs)
  then show ?case by (cases k) (auto split: if_splits)
qed

lemma index_of_update:
  "index_of P xs = Some k \<Longrightarrow> P y \<Longrightarrow> index_of P (xs[k := y]) = Some k"
proof (induction xs arbitrary: k)
  case Nil
  then show ?case by simp
next
  case (Cons x xs)
  then show ?case by (cases k) (auto split: if_splits)
qed

lemma is_bundle_named_BRow: "is_bundle_named l n \<longleftrightarrow> (\<exists>b. n = BRow b \<and> b_label b = l)"
  by (cases n) auto


lemma render_row_label: "b_label (snd (render_row n ss dt b)) = b_label b"
  by (simp add: render_row_def write_name_def write_senders_def write_date_def)



lemma updateBundleDom_ok:
  assumes "index_of (is_bundle_named l) (visible_rows d) = Some k"
    and "obj_get (bundles s) l = Some (latest # rest)"
    and "getRecentSenders s d l = Inr senders"
    and "e_date (heap d latest) = Some sent"
    and "visible_rows d ! k = BRow b"
    and "name = rendered_bundle_name l (Suc (length rest))
                  (e_unread (heap d latest) \<or> flag_set (bundlesUnread s) l)
                  (flag_set (bundlesVisibility s) l)"
  shows "updateBundleDom s l d =
           (None, d\<lparr>table := Some ((visible_rows d)[k := BRow (snd (render_row name senders sent b))]),
                    slot_writes := slot_writes d @ map (Pair l) (fst (render_row name senders sent b))\<rparr>)"
  using assms
  by (simp add: updateBundleDom_def Let_def split: prod.splits)





lemma replace_nbsp_plain:
  "CHR ''&'' \<notin> set a \<Longrightarrow> replace_nbsp_from 0 (a @ b) = a @ replace_nbsp_from 0 b"
  by (induction a) auto

lemma replace_nbsp_separator:
  "replace_nbsp_from 0 (EMAIL_SENDERS_SEPARATOR @ b)
     = replace_nbsp EMAIL_SENDERS_SEPARATOR @ replace_nbsp_from 0 b"
  by (simp add: EMAIL_SENDERS_SEPARATOR_def replace_nbsp_def eval_nat_numeral)

lemma replace_nbsp_join:
  "\<forall>x\<in>set ss. CHR ''&'' \<notin> set x \<Longrightarrow>
     replace_nbsp (join EMAIL_SENDERS_SEPARATOR ss) = join (replace_nbsp EMAIL_SENDERS_SEPARATOR) ss"
proof (induction "EMAIL_SENDERS_SEPARATOR" ss rule: join.induct)
  case 1
  then show ?case by (simp add: replace_nbsp_def)
next
  case (2 x)
  then show ?case using replace_nbsp_plain [of x "[]"] by (simp add: replace_nbsp_def)
next
  case (3 x y ys)
  then show ?case
    by (simp add: replace_nbsp_def replace_nbsp_plain replace_nbsp_separator)
qed

lemma recent_senders_loop_heap:
  "heap d' = heap d \<Longrightarrow> recent_senders_loop d' n es = recent_senders_loop d n es"
  by (induction d n es rule: recent_senders_loop.induct) (auto split: option.splits sum.splits)

lemma getRecentSenders_heap:
  "heap d' = heap d \<Longrightarrow> getRecentSenders s d' l = getRecentSenders s d l"
  using recent_senders_loop_heap [of d' d]
  by (simp add: getRecentSenders_def split: option.splits)

lemma recent_senders_loop_set:
  "recent_senders_loop d n es = Inr ts \<Longrightarrow> t \<in> set ts \<Longrightarrow>
     \<exists>i\<in>set (take n es). e_sender (heap d i) = Some t"
proof (induction d n es arbitrary: ts rule: recent_senders_loop.induct)
  case (1 d es)
  then show ?case by simp
next
  case (2 d k)
  then show ?case by simp
next
  case (3 d k i es)
  from "3.prems"(1) obtain t0 ts' where
    t0: "e_sender (heap d i) = Some t0" and ts': "recent_senders_loop d k es = Inr ts'"
    and ts: "ts = t0 # ts'"
    by (auto split: option.splits sum.splits)
  show ?case
  proof (cases "t = t0")
    case True
    with t0 show ?thesis by simp
  next
    case False
    with "3.prems"(2) ts have "t \<in> set ts'" by simp
    from "3.IH" [OF t0 ts' this] show ?thesis by auto
  qed
qed

lemma render_row_twice:
  assumes "rendered_text (join EMAIL_SENDERS_SEPARATOR ss)
             = join (replace_nbsp EMAIL_SENDERS_SEPARATOR) ss"
  shows "render_row n ss dt (snd (render_row n ss dt b)) = ([], snd (render_row n ss dt b))"
  using assms
  by (simp add: render_row_def write_name_def write_senders_def write_date_def)

lemma update_twice_no_write:
  assumes plain: "\<forall>i\<in>set (take 3 (members s l)). \<forall>t. e_sender (heap d i) = Some t \<longrightarrow> CHR ''&'' \<notin> set t"
  shows "slot_writes (snd (updateBundleDom s l (snd (updateBundleDom s l d))))
           = slot_writes (snd (updateBundleDom s l d))"
proof -
  consider (unchanged) "snd (updateBundleDom s l d) = d"
    | (written) k latest rest senders sent where
        "index_of (is_bundle_named l) (visible_rows d) = Some k"
        "obj_get (bundles s) l = Some (latest # rest)"
        "getRecentSenders s d l = Inr senders"
        "e_date (heap d latest) = Some sent"
  proof (cases "index_of (is_bundle_named l) (visible_rows d)")
    case None
    then have "snd (updateBundleDom s l d) = d" by (simp add: updateBundleDom_def)
    then show ?thesis by (rule unchanged)
  next
    case (Some k)
    show ?thesis
    proof (cases "obj_get (bundles s) l")
      case None
      with Some have "snd (updateBundleDom s l d) = d" by (simp add: updateBundleDom_def)
      then show ?thesis by (rule unchanged)
    next
      case bd: (Some members)
      show ?thesis
      proof (cases members)
        case Nil
        with Some bd have "snd (updateBundleDom s l d) = d" by (simp add: updateBundleDom_def)
        then show ?thesis by (rule unchanged)
      next
        case (Cons latest rest)
        show ?thesis
        proof (cases "getRecentSenders s d l")
          case (Inl e)
          with Some bd Cons have "snd (updateBundleDom s l d) = d"
            by (simp add: updateBundleDom_def)
          then show ?thesis by (rule unchanged)
        next
          case (Inr senders)
          show ?thesis
          proof (cases "e_date (heap d latest)")
            case None
            with Some bd Cons Inr have "snd (updateBundleDom s l d) = d"
              by (simp add: updateBundleDom_def)
            then show ?thesis by (rule unchanged)
          next
            case sent: (Some sent)
            from Some bd Cons Inr sent show ?thesis
              by (intro written [of k latest rest senders sent]) simp_all
          qed
        qed
      qed
    qed
  qed
  then show ?thesis
  proof cases
    case unchanged
    then show ?thesis by simp
  next
    case (written k latest rest senders sent)
    note k = written(1) and b = written(2) and rs = written(3) and dt = written(4)
  from index_of_SomeD [OF k] obtain br where br: "visible_rows d ! k = BRow br" "b_label br = l"
    and len: "k < length (visible_rows d)"
    by (auto simp: is_bundle_named_BRow)
  define name where "name = rendered_bundle_name l (Suc (length rest))
                  (e_unread (heap d latest) \<or> flag_set (bundlesUnread s) l)
                  (flag_set (bundlesVisibility s) l)"
  define b' where "b' = snd (render_row name senders sent br)"
  define d1 where "d1 = d\<lparr>table := Some ((visible_rows d)[k := BRow b']),
       slot_writes := slot_writes d @ map (Pair l) (fst (render_row name senders sent br))\<rparr>"
  have u1: "updateBundleDom s l d = (None, d1)"
    unfolding d1_def b'_def by (rule updateBundleDom_ok [OF k b rs dt br(1) name_def])
  have heap1: "heap d1 = heap d"
    by (simp add: d1_def)
  have rows1: "visible_rows d1 = (visible_rows d)[k := BRow b']"
    by (simp add: d1_def visible_rows_def)
  have k1: "index_of (is_bundle_named l) (visible_rows d1) = Some k"
    unfolding rows1 using k br(2)
    by (intro index_of_update) (simp_all add: b'_def render_row_label)
  have rs1: "getRecentSenders s d1 l = Inr senders"
    using rs getRecentSenders_heap [OF heap1] by simp
  have dt1: "e_date (heap d1 latest) = Some sent"
    using dt by (simp add: heap1)
  have br1: "visible_rows d1 ! k = BRow b'"
    using len by (simp add: rows1)
  have name1: "name = rendered_bundle_name l (Suc (length rest))
                  (e_unread (heap d1 latest) \<or> flag_set (bundlesUnread s) l)
                  (flag_set (bundlesVisibility s) l)"
    by (simp add: name_def heap1)
  have "\<forall>x\<in>set senders. CHR ''&'' \<notin> set x"
  proof
    fix x assume "x \<in> set senders"
    with rs b obtain i where "i \<in> set (take 3 (latest # rest))" "e_sender (heap d i) = Some x"
      using recent_senders_loop_set [of d 3 "latest # rest" senders x]
      by (auto simp: getRecentSenders_def MAX_SENDERS_BUNDLE_DESC_def)
    with plain b show "CHR ''&'' \<notin> set x"
      unfolding members_def by auto
  qed
  then have H: "rendered_text (join EMAIL_SENDERS_SEPARATOR senders)
             = join (replace_nbsp EMAIL_SENDERS_SEPARATOR) senders"
    by (simp add: rendered_text_def replace_nbsp_join)
  have "fst (render_row name senders sent b') = []"
    unfolding b'_def using render_row_twice [OF H, of name sent br] by simp
  with updateBundleDom_ok [OF k1 b rs1 dt1 br1 name1]
  have u2: "slot_writes (snd (updateBundleDom s l d1)) = slot_writes d1"
    by simp
  show ?thesis
    by (simp add: u1 u2)
  qed
qed

text \<open>
  Claim C5 (idempotent rendering) fails on the code.  The senders are written as markup
  (\<^verbatim>\<open>innerHTML\<close>) and compared as text (\<^verbatim>\<open>innerText\<close>), and only the separator's entities
  are normalised on the computed side: a sender text that itself contains \<^verbatim>\<open>&nbsp;\<close> reads
  back with U+00A0 in its place and never equals the computed text.  On the mailbox
  below the second of two calls in a row writes the senders slot again.  (The lemma
  \<open>update_twice_no_write\<close> above shows that the second call writes nothing when no sender
  text contains an ampersand.)
\<close>

theorem update_twice_rewrites_senders:
  "slot_writes (snd (updateBundleDom entity_state ''Work'' entity_dom))
     = [(''Work'', NameSlot), (''Work'', SendersSlot), (''Work'', DateSlot)]
   \<and> slot_writes (snd (updateBundleDom entity_state ''Work''
                         (snd (updateBundleDom entity_state ''Work'' entity_dom))))
     = [(''Work'', NameSlot), (''Work'', SendersSlot), (''Work'', DateSlot), (''Work'', SendersSlot)]"
  by code_simp

subsection \<open>The toggle protocol\<close>

lemma set_object_keys: "set (object_keys obj) = fst ` set obj"
  by (auto simp: object_keys_def Let_def)

lemma flag_set_key: "flag_set obj l \<Longrightarrow> l \<in> fst ` set obj"
  by (auto simp: flag_set_def obj_get_def dest: map_of_SomeD intro: rev_image_eqI)

lemma obj_get_key: "l \<in> fst ` set obj \<Longrightarrow> obj_get obj l \<noteq> None"
  by (simp add: obj_get_def map_of_eq_None_iff)

lemma flag_set_obj_set: "flag_set (obj_set k v obj) l = (if l = k then v else flag_set obj l)"
  by (simp add: flag_set_def obj_get_set)

lemma keys_obj_set: "fst ` set (obj_set k v obj) = insert k (fst ` set obj)"
proof -
  have "set (map fst (AList.update k v obj)) = insert k (set (map fst obj))"
    by (auto simp: update_keys)
  then show ?thesis by (simp add: obj_set_def)
qed

lemma set_open_labels: "set (open_labels s) = {l. flag_set (bundlesVisibility s) l}"
  by (auto simp: open_labels_def dest: flag_set_key)

lemma at_most_one_open_iff:
  "at_most_one_open s \<longleftrightarrow>
     (\<forall>a b. flag_set (bundlesVisibility s) a \<and> flag_set (bundlesVisibility s) b \<longrightarrow> a = b)"
proof -
  have d: "distinct (open_labels s)"
    by (simp add: open_labels_def)
  have "length (open_labels s) = card (set (open_labels s))"
    using d by (simp add: distinct_card)
  then have "at_most_one_open s \<longleftrightarrow> card (set (open_labels s)) \<le> Suc 0"
    by (simp add: at_most_one_open_def)
  also have "\<dots> \<longleftrightarrow> (\<forall>a\<in>set (open_labels s). \<forall>b\<in>set (open_labels s). a = b)"
    by (rule card_le_Suc0_iff_eq) simp
  finally show ?thesis
    by (auto simp: set_open_labels)
qed

lemma getVisibleBundleName_Some:
  "getVisibleBundleName s = Some v \<Longrightarrow> flag_set (bundlesVisibility s) v"
  by (auto simp: getVisibleBundleName_def find_Some_iff)

lemma getVisibleBundleName_None:
  "getVisibleBundleName s = None \<Longrightarrow> \<not> flag_set (bundlesVisibility s) l"
  using flag_set_key [of "bundlesVisibility s" l]
  by (auto simp: getVisibleBundleName_def find_None_iff set_object_keys)

text \<open>What a click does to the flags, whatever the document.\<close>

lemma close_visible_state:
  "fst (snd (close_visible B l (s, d))) =
     (if obj_get (bundlesVisibility s) l = Some False \<and> truthy_label (getVisibleBundleName s)
      then set_visibility (the (getVisibleBundleName s)) False s else s)"
  by (simp add: close_visible_def Let_def split: prod.splits)

lemma toggle_clicked_state:
  "fst (snd (toggle_clicked B l (s, d))) = set_visibility l (\<not> flag_set (bundlesVisibility s) l) s"
  by (simp add: toggle_clicked_def Let_def split: prod.splits option.splits)

lemma onBundleClick_state:
  "fst (snd (onBundleClick B l (s, d))) = fst (snd (close_visible B l (s, d)))
   \<or> fst (snd (onBundleClick B l (s, d)))
       = set_visibility l (\<not> flag_set (bundlesVisibility (fst (snd (close_visible B l (s, d))))) l)
           (fst (snd (close_visible B l (s, d))))"
proof (cases "close_visible B l (s, d)")
  case (fields r s1 d1)
  show ?thesis
  proof (cases r)
    case None
    with fields show ?thesis
      using toggle_clicked_state [of B l s1 d1] by (simp add: onBundleClick_def)
  next
    case (Some e)
    with fields show ?thesis by (simp add: onBundleClick_def)
  qed
qed

lemma close_visible_inv:
  assumes "closed_or_one K s"
  shows "closed_or_one K (fst (snd (close_visible B l (s, d))))"
proof (cases "obj_get (bundlesVisibility s) l = Some False \<and> truthy_label (getVisibleBundleName s)")
  case False
  then have "fst (snd (close_visible B l (s, d))) = s"
    unfolding close_visible_state by (rule if_not_P)
  with assms show ?thesis by simp
next
  case True
  then obtain v where v: "getVisibleBundleName s = Some v"
    by (auto simp: truthy_label_def split: option.splits)
  then have fv: "flag_set (bundlesVisibility s) v"
    by (rule getVisibleBundleName_Some)
  then have "v \<in> K"
    using assms flag_set_key by (auto simp: closed_or_one_def)
  then show ?thesis
    using assms True v
    by (auto simp: close_visible_state closed_or_one_def at_most_one_open_iff set_visibility_def
          flag_set_obj_set keys_obj_set)
qed

lemma close_visible_none_open:
  assumes "closed_or_one K s" and "l \<in> K" and "\<not> flag_set (bundlesVisibility s) l"
  shows "\<not> flag_set (bundlesVisibility (fst (snd (close_visible B l (s, d))))) x"
proof -
  from assms have f: "obj_get (bundlesVisibility s) l = Some False"
    using obj_get_key [of l "bundlesVisibility s"]
    by (auto simp: closed_or_one_def flag_set_def)
  show ?thesis
  proof (cases "getVisibleBundleName s")
    case None
    then show ?thesis
      by (simp add: close_visible_state truthy_label_def getVisibleBundleName_None)
  next
    case (Some v)
    then have fv: "flag_set (bundlesVisibility s) v"
      by (rule getVisibleBundleName_Some)
    then have "v \<in> K" "v \<noteq> []"
      using assms(1) flag_set_key by (auto simp: closed_or_one_def)
    moreover have "flag_set (bundlesVisibility s) x \<Longrightarrow> x = v"
      using assms(1) fv by (auto simp: closed_or_one_def at_most_one_open_iff)
    ultimately show ?thesis
      using f Some
      by (auto simp: close_visible_state truthy_label_def set_visibility_def flag_set_obj_set)
  qed
qed

lemma set_visibility_inv:
  assumes "closed_or_one K s" and "l \<in> K"
    and "\<And>x. flag_set (bundlesVisibility s) x \<Longrightarrow> x = l"
  shows "closed_or_one K (set_visibility l v s)"
proof -
  have keys: "fst ` set (bundlesVisibility (set_visibility l v s)) = K"
    using assms(1,2) by (auto simp: closed_or_one_def set_visibility_def keys_obj_set)
  have "flag_set (bundlesVisibility (set_visibility l v s)) x \<Longrightarrow> x = l" for x
    using assms(3) [of x] by (simp add: set_visibility_def flag_set_obj_set split: if_splits)
  then have "at_most_one_open (set_visibility l v s)"
    unfolding at_most_one_open_iff by blast
  with keys assms(1) show ?thesis
    by (simp add: closed_or_one_def)
qed

lemma onBundleClick_inv:
  assumes inv: "closed_or_one K s" and l: "l \<in> K"
  shows "closed_or_one K (fst (snd (onBundleClick B l (s, d))))"
proof -
  define s1 where "s1 = fst (snd (close_visible B l (s, d)))"
  have inv1: "closed_or_one K s1"
    unfolding s1_def using inv by (rule close_visible_inv)
  have only_l: "flag_set (bundlesVisibility s1) x \<Longrightarrow> x = l" for x
  proof (cases "flag_set (bundlesVisibility s) l")
    case True
    then have "obj_get (bundlesVisibility s) l \<noteq> Some False"
      by (simp add: flag_set_def)
    then have "s1 = s"
      by (simp add: s1_def close_visible_state)
    moreover assume "flag_set (bundlesVisibility s1) x"
    ultimately show "x = l"
      using inv True unfolding closed_or_one_def at_most_one_open_iff by blast
  next
    case False
    assume "flag_set (bundlesVisibility s1) x"
    with close_visible_none_open [OF inv l False, of B d x] show "x = l"
      by (simp add: s1_def)
  qed
  have inv2: "closed_or_one K (set_visibility l v s1)" for v
    using inv1 l only_l by (rule set_visibility_inv)
  from onBundleClick_state [of B l s d] show ?thesis
  proof
    assume "fst (snd (onBundleClick B l (s, d))) = fst (snd (close_visible B l (s, d)))"
    with inv1 show ?thesis by (simp only: s1_def)
  next
    assume "fst (snd (onBundleClick B l (s, d)))
       = set_visibility l (\<not> flag_set (bundlesVisibility (fst (snd (close_visible B l (s, d))))) l)
           (fst (snd (close_visible B l (s, d))))"
    with inv2 show ?thesis by (simp only: s1_def)
  qed
qed

lemma clicks_inv:
  "closed_or_one K (fst sd) \<Longrightarrow> set ls \<subseteq> K \<Longrightarrow> closed_or_one K (fst (clicks B ls sd))"
proof (induction ls arbitrary: sd)
  case Nil
  then show ?case by simp
next
  case (Cons l ls)
  obtain s d where sd: "sd = (s, d)" by (cases sd) auto
  from Cons.prems have "closed_or_one K (fst (snd (onBundleClick B l (s, d))))"
    by (intro onBundleClick_inv) (simp_all add: sd)
  with Cons show ?case by (simp add: sd)
qed

text \<open>
  Claim C2 (exclusivity).  Start with every label closed and click, in any order and any
  number of times, on bundle rows (a bundle row exists only for a label whose flag the
  cycle has initialised, and a label is never the empty string): after each click
  handler, whether it returned or threw, at most one label has its flag
  \<^verbatim>\<open>state.bundlesVisibility[label]\<close> true.
\<close>

theorem click_exclusivity:
  assumes "\<forall>l. \<not> flag_set (bundlesVisibility s) l"
    and "set ls \<subseteq> fst ` set (bundlesVisibility s)"
    and "[] \<notin> fst ` set (bundlesVisibility s)"
  shows "\<forall>n. at_most_one_open (fst (clicks B (take n ls) (s, d)))"
proof
  fix n
  have "closed_or_one (fst ` set (bundlesVisibility s)) s"
    using assms(1,3) by (simp add: closed_or_one_def at_most_one_open_iff)
  moreover have "set (take n ls) \<subseteq> fst ` set (bundlesVisibility s)"
    using assms(2) set_take_subset [of n ls] by blast
  ultimately have "closed_or_one (fst ` set (bundlesVisibility s)) (fst (clicks B (take n ls) (s, d)))"
    using clicks_inv [of _ "(s, d)"] by simp
  then show "at_most_one_open (fst (clicks B (take n ls) (s, d)))"
    by (simp add: closed_or_one_def)
qed


lemma demo_cycle_state: "fst demo_cycle = demo_state"
  by code_simp

text \<open>After the first cycle on the small mailbox: open Work, switch to Home, close Home.\<close>

theorem click_exclusivity_witness:
  "(\<forall>l. \<not> flag_set (bundlesVisibility (fst demo_cycle)) l)
   \<and> set [''Work'', ''Home'', ''Home''] \<subseteq> fst ` set (bundlesVisibility (fst demo_cycle))
   \<and> [] \<notin> fst ` set (bundlesVisibility (fst demo_cycle))
   \<and> at_most_one_open (fst (clicks demo_browser (take 1 [''Work'', ''Home'', ''Home'']) demo_cycle))
   \<and> at_most_one_open (fst (clicks demo_browser (take 2 [''Work'', ''Home'', ''Home'']) demo_cycle))
   \<and> at_most_one_open (fst (clicks demo_browser (take 3 [''Work'', ''Home'', ''Home'']) demo_cycle))
   \<and> open_labels (fst (clicks demo_browser [''Work''] demo_cycle)) = [''Work'']
   \<and> open_labels (fst (clicks demo_browser [''Work'', ''Home''] demo_cycle)) = [''Home'']
   \<and> open_labels (fst (clicks demo_browser [''Work'', ''Home'', ''Home''] demo_cycle)) = []"
proof -
  have h1: "\<forall>l. \<not> flag_set (bundlesVisibility (fst demo_cycle)) l"
    by (simp add: demo_cycle_state demo_state_def flag_set_def obj_get_def)
  have h2: "set [''Work'', ''Home'', ''Home''] \<subseteq> fst ` set (bundlesVisibility (fst demo_cycle))"
    by (simp add: demo_cycle_state demo_state_def)
  have h3: "[] \<notin> fst ` set (bundlesVisibility (fst demo_cycle))"
    by (simp add: demo_cycle_state demo_state_def)
  have ev: "open_labels (fst (clicks demo_browser [''Work''] demo_cycle)) = [''Work'']
   \<and> open_labels (fst (clicks demo_browser [''Work'', ''Home''] demo_cycle)) = [''Home'']
   \<and> open_labels (fst (clicks demo_browser [''Work'', ''Home'', ''Home''] demo_cycle)) = []"
    by code_simp
  from click_exclusivity [OF h1 h2 h3, of demo_browser "snd demo_cycle"]
  have "\<forall>n. at_most_one_open (fst (clicks demo_browser (take n [''Work'', ''Home'', ''Home'']) demo_cycle))"
    by simp
  with h1 h2 h3 ev show ?thesis
    by blast
qed

subsection \<open>The cycle\<close>

lemma fold_show_email_table [simp]:
  "table (fold show_email is d) = table d" "slot_writes (fold show_email is d) = slot_writes d"
  by (induction "is" arbitrary: d) (auto simp: show_email_def)

lemma showUnbundledEmails_rows [simp]:
  "visible_rows (showUnbundledEmails d) = visible_rows d"
  "table (showUnbundledEmails d) = table d"
  "slot_writes (showUnbundledEmails d) = slot_writes d"
  by (simp_all add: showUnbundledEmails_def visible_rows_def)

lemma fold_show_email_heap:
  "heap (fold show_email is d) i =
     (if i \<in> set is then (heap d i)\<lparr>e_hidden := False, e_display := EMAIL_DEFAULT_DISPLAY\<rparr>
      else heap d i)"
  by (induction "is" arbitrary: d) (auto simp: show_email_def)

lemma showUnbundledEmails_heap:
  "heap (showUnbundledEmails d) i =
     (if i \<in> set (email_ids (visible_rows d)) \<and> e_hidden (heap d i) \<and> \<not> e_is_bundled (heap d i)
      then (heap d i)\<lparr>e_hidden := False, e_display := EMAIL_DEFAULT_DISPLAY\<rparr>
      else heap d i)"
  by (simp add: showUnbundledEmails_def fold_show_email_heap)



lemma email_ids_append [simp]: "email_ids (xs @ ys) = email_ids xs @ email_ids ys"
  by (induction xs rule: email_ids.induct) auto

lemma email_ids_filter_keep [simp]: "email_ids (filter (keep_row names) rows) = email_ids rows"
  by (induction rows rule: email_ids.induct) auto

lemma remove_node_simps [simp]:
  "visible_rows (remove_node k d) = take k (visible_rows d) @ drop (Suc k) (visible_rows d)"
  "heap (remove_node k d) = heap d"
  "slot_writes (remove_node k d) = slot_writes d"
  by (simp_all add: remove_node_def visible_rows_def)

lemma insert_node_simps [simp]:
  "visible_rows (insert_node k n d) = take k (visible_rows d) @ n # drop k (visible_rows d)"
  "heap (insert_node k n d) = heap d"
  "slot_writes (insert_node k n d) = slot_writes d"
  by (simp_all add: insert_node_def visible_rows_def)





text \<open>Frames: what the operations on the document leave alone.\<close>

lemma for_each_inv:
  assumes "\<And>x s. x \<in> set xs \<Longrightarrow> P s \<Longrightarrow> P (snd (f x s))" and "P s"
  shows "P (snd (for_each f xs s))"
  using assms
proof (induction xs arbitrary: s)
  case Nil
  then show ?case by simp
next
  case (Cons x xs)
  obtain r s1 where f: "f x s = (r, s1)" by (cases "f x s") auto
  have s1: "P s1" using Cons.prems(1) [of x s] Cons.prems(2) f by simp
  show ?case
  proof (cases r)
    case None
    have "P (snd (for_each f xs s1))"
      by (rule Cons.IH) (use Cons.prems(1) s1 in auto)
    with f None show ?thesis by simp
  next
    case (Some e)
    with f s1 show ?thesis by simp
  qed
qed

lemma bundle_labels_append [simp]: "bundle_labels (xs @ ys) = bundle_labels xs @ bundle_labels ys"
  by (induction xs rule: bundle_labels.induct) auto

lemma bundle_labels_update:
  "k < length rows \<Longrightarrow> rows ! k = BRow b \<Longrightarrow> b_label b' = b_label b \<Longrightarrow>
     bundle_labels (rows[k := BRow b']) = bundle_labels rows"
proof (induction rows arbitrary: k rule: bundle_labels.induct)
  case 1
  then show ?case by simp
next
  case (2 i ns)
  then show ?case by (cases k) auto
next
  case (3 b0 ns)
  then show ?case by (cases k) auto
qed

lemma email_ids_update:
  "k < length rows \<Longrightarrow> rows ! k = BRow b \<Longrightarrow> email_ids (rows[k := BRow b']) = email_ids rows"
proof (induction rows arbitrary: k rule: email_ids.induct)
  case 1
  then show ?case by simp
next
  case (2 i ns)
  then show ?case by (cases k) auto
next
  case (3 b0 ns)
  then show ?case by (cases k) auto
qed

lemma set_bundle_labels_take_drop:
  "set (bundle_labels (take k rows)) \<subseteq> set (bundle_labels rows)"
  "set (bundle_labels (drop k rows)) \<subseteq> set (bundle_labels rows)"
proof -
  have "bundle_labels rows = bundle_labels (take k rows) @ bundle_labels (drop k rows)"
    by (simp flip: bundle_labels_append)
  then show "set (bundle_labels (take k rows)) \<subseteq> set (bundle_labels rows)"
    "set (bundle_labels (drop k rows)) \<subseteq> set (bundle_labels rows)"
    by auto
qed

lemma email_ids_take_drop_BRow:
  "k < length rows \<Longrightarrow> rows ! k = BRow b \<Longrightarrow>
     email_ids (take k rows) @ email_ids (drop (Suc k) rows) = email_ids rows"
proof -
  assume "k < length rows" "rows ! k = BRow b"
  then have "rows = take k rows @ BRow b # drop (Suc k) rows"
    using id_take_nth_drop [of k rows] by simp
  then have "email_ids rows = email_ids (take k rows @ BRow b # drop (Suc k) rows)"
    by simp
  then show ?thesis by simp
qed

lemma updateBundleDom_frame:
  "heap (snd (updateBundleDom s l d)) = heap d
   \<and> bundle_labels (visible_rows (snd (updateBundleDom s l d))) = bundle_labels (visible_rows d)
   \<and> email_ids (visible_rows (snd (updateBundleDom s l d))) = email_ids (visible_rows d)"
proof (cases "index_of (is_bundle_named l) (visible_rows d)")
  case None
  then show ?thesis by (simp add: updateBundleDom_def)
next
  case (Some k)
  from index_of_SomeD [OF Some] obtain b where
    k: "k < length (visible_rows d)" "visible_rows d ! k = BRow b"
    by (auto simp: is_bundle_named_BRow)
  have row: "render_node n ss dt (visible_rows d ! k) = (ws, n') \<Longrightarrow>
      bundle_labels ((visible_rows d)[k := n']) = bundle_labels (visible_rows d)
      \<and> email_ids ((visible_rows d)[k := n']) = email_ids (visible_rows d)" for n ss dt ws n'
    using k render_row_label [of n ss dt b] bundle_labels_update [OF k] email_ids_update [OF k]
    by (auto simp: split: prod.splits)
  show ?thesis
    using Some row
    by (auto simp: updateBundleDom_def Let_def visible_rows_def
          split: option.splits list.splits sum.splits prod.splits)
qed

lemma labels_frame_refl [simp]: "labels_frame A d d"
  by (simp add: labels_frame_def)

lemma labels_frame_trans:
  "labels_frame A d d1 \<Longrightarrow> labels_frame A d1 d2 \<Longrightarrow> labels_frame A d d2"
  unfolding labels_frame_def by auto


lemma hidden_frame_refl [simp]: "hidden_frame H d d"
  by (simp add: hidden_frame_def)

lemma hidden_frame_trans:
  "hidden_frame H d d1 \<Longrightarrow> hidden_frame H d1 d2 \<Longrightarrow> hidden_frame H d d2"
  unfolding hidden_frame_def by blast


lemma hidden_frame_heap: "heap d' = heap d \<Longrightarrow> hidden_frame H d d'"
  by (simp add: hidden_frame_def)

lemma updateBundleDom_labels: "labels_frame A d (snd (updateBundleDom s l d))"
  using updateBundleDom_frame [of s l d] by (simp add: labels_frame_def)

lemma updateBundleDom_heap: "heap (snd (updateBundleDom s l d)) = heap d"
  using updateBundleDom_frame [of s l d] by simp

lemma insert_node_labels:
  "labels_frame {b_label b} d (insert_node k (BRow b) d)"
proof -
  have "email_ids (take k rows @ BRow b # drop k rows) = email_ids rows" for rows
  proof -
    have "email_ids (take k rows) @ email_ids (drop k rows) = email_ids rows"
      by (metis email_ids_append append_take_drop_id)
    then show ?thesis by simp
  qed
  moreover have "set (bundle_labels (take k rows @ BRow b # drop k rows))
      \<subseteq> set (bundle_labels rows) \<union> {b_label b}" for rows
    using set_bundle_labels_take_drop [of k rows] by auto
  ultimately show ?thesis
    by (simp add: labels_frame_def)
qed

lemma insertBundleDom_frame:
  "labels_frame {l} d (snd (insertBundleDom B s email l after d))
   \<and> heap (snd (insertBundleDom B s email l after d)) = heap d"
proof -
  have "labels_frame {l} d (snd (updateBundleDom s l (insert_node k (BRow b) d)))
      \<and> heap (snd (updateBundleDom s l (insert_node k (BRow b) d))) = heap d"
    if "b_label b = l" for k b
    using insert_node_labels [of b d k] that
      updateBundleDom_labels [of "{l}" "insert_node k (BRow b) d" s l]
    by (auto simp: updateBundleDom_heap intro: labels_frame_trans)
  then show ?thesis
    by (auto simp: insertBundleDom_def split: option.splits list.splits prod.splits)
qed

lemma remove_node_labels:
  assumes "k < length (visible_rows d)" and "visible_rows d ! k = BRow b"
  shows "labels_frame {} d (remove_node k d)"
  using assms set_bundle_labels_take_drop [of _ "visible_rows d"]
  by (auto simp: labels_frame_def email_ids_take_drop_BRow)

lemma move_bundle_frame:
  "labels_frame {} d (snd (move_bundle B s email after l d))
   \<and> heap (snd (move_bundle B s email after l d)) = heap d"
proof (cases "index_of (is_bundle_named l) (visible_rows d)")
  case None
  then show ?thesis
    by (simp add: move_bundle_def split: option.splits)
next
  case (Some j)
  from index_of_SomeD [OF Some] obtain b where
    j: "j < length (visible_rows d)" "visible_rows d ! j = BRow b" "b_label b = l"
    by (auto simp: is_bundle_named_BRow)
  have l: "l \<in> set (bundle_labels (visible_rows d))"
  proof -
    have "visible_rows d = take j (visible_rows d) @ BRow b # drop (Suc j) (visible_rows d)"
      using id_take_nth_drop [of j "visible_rows d"] j by simp
    then have "bundle_labels (visible_rows d)
        = bundle_labels (take j (visible_rows d) @ BRow b # drop (Suc j) (visible_rows d))"
      by simp
    then show ?thesis using j(3) by simp
  qed
  have rm: "labels_frame {} d (remove_node j d)"
    using j by (intro remove_node_labels)
  have ins: "labels_frame {l} (remove_node j d) (snd (insertBundleDom B s email l after (remove_node j d)))"
    "heap (snd (insertBundleDom B s email l after (remove_node j d))) = heap d"
    using insertBundleDom_frame [of l "remove_node j d" B s email after] by simp_all
  have "labels_frame {} d (snd (insertBundleDom B s email l after (remove_node j d)))"
    using rm ins(1) l unfolding labels_frame_def by auto
  with ins(2) Some show ?thesis
    by (auto simp: move_bundle_def split: option.splits)
qed

lemma moveBundleDoms_frame:
  "labels_frame {} d (snd (moveBundleDoms B s email names after d))
   \<and> heap (snd (moveBundleDoms B s email names after d)) = heap d"
  unfolding moveBundleDoms_def
proof (rule for_each_inv [where P = "\<lambda>d'. labels_frame {} d d' \<and> heap d' = heap d"])
  fix x d1
  assume "labels_frame {} d d1 \<and> heap d1 = heap d"
  with move_bundle_frame [of d1 B s email after x]
  show "labels_frame {} d (snd (move_bundle B s email after x d1))
      \<and> heap (snd (move_bundle B s email after x d1)) = heap d"
    by (auto intro: labels_frame_trans)
qed simp

lemma resetBundleDomsPosition_frame:
  "labels_frame {} d (snd (resetBundleDomsPosition B s d))
   \<and> heap (snd (resetBundleDomsPosition B s d)) = heap d"
proof (cases "truthy_label (getVisibleBundleName s)")
  case True
  then show ?thesis
    using moveBundleDoms_frame
    by (simp add: resetBundleDomsPosition_def Let_def split: option.splits)
next
  case False
  have "labels_frame {} d (snd (for_each (\<lambda>bundleName. moveBundleDoms B s (first_of (members s bundleName))
                                    [bundleName] False) (object_keys (bundles s)) d))
     \<and> heap (snd (for_each (\<lambda>bundleName. moveBundleDoms B s (first_of (members s bundleName))
                                    [bundleName] False) (object_keys (bundles s)) d)) = heap d"
  proof (rule for_each_inv [where P = "\<lambda>d'. labels_frame {} d d' \<and> heap d' = heap d"])
    fix x d1
    assume "labels_frame {} d d1 \<and> heap d1 = heap d"
    with moveBundleDoms_frame [of d1 B s "first_of (members s x)" "[x]" False]
    show "labels_frame {} d (snd (moveBundleDoms B s (first_of (members s x)) [x] False d1))
        \<and> heap (snd (moveBundleDoms B s (first_of (members s x)) [x] False d1)) = heap d"
      by (auto intro: labels_frame_trans)
  qed simp
  with False show ?thesis
    by (simp add: resetBundleDomsPosition_def)
qed

lemma fold_hide_email:
  "table (fold hide_email es d) = table d \<and> slot_writes (fold hide_email es d) = slot_writes d
   \<and> (\<forall>i. e_chips (heap (fold hide_email es d) i) = e_chips (heap d i)
          \<and> e_is_bundled (heap (fold hide_email es d) i) = e_is_bundled (heap d i)
          \<and> e_hidden (heap (fold hide_email es d) i) = (e_hidden (heap d i) \<or> i \<in> set es))"
  by (induction es arbitrary: d) (auto simp: hide_email_def)

lemma fold_hide_email_rows: "visible_rows (fold hide_email es d) = visible_rows d"
  using fold_hide_email [of es d] by (simp add: visible_rows_def)

lemma hideEmails_frame:
  "labels_frame A d (snd (hideEmails es d))
   \<and> hidden_frame (case es of None \<Rightarrow> {} | Some xs \<Rightarrow> set xs) d (snd (hideEmails es d))"
proof (cases es)
  case None
  then show ?thesis by (simp add: hideEmails_def)
next
  case (Some xs)
  then show ?thesis
    using fold_hide_email [of xs d]
    by (simp add: hideEmails_def labels_frame_def hidden_frame_def fold_hide_email_rows)
qed

lemma showUnbundledEmails_frame:
  "labels_frame A d (showUnbundledEmails d) \<and> hidden_frame H d (showUnbundledEmails d)"
  by (simp add: labels_frame_def hidden_frame_def showUnbundledEmails_heap)

lemma turnOffBundleVisibility_frame:
  "labels_frame {} d (snd (turnOffBundleVisibility B s l d))
   \<and> hidden_frame (set (members s l)) d (snd (turnOffBundleVisibility B s l d))"
proof (cases "hideEmails (obj_get (bundles s) l) d")
  case (Pair r d1)
  have h: "labels_frame {} d d1" "hidden_frame (set (members s l)) d d1"
    using hideEmails_frame [of "{}" d "obj_get (bundles s) l"] Pair
    by (auto simp: members_def split: option.splits)
  show ?thesis
  proof (cases r)
    case (Some e)
    with Pair h show ?thesis by (simp add: turnOffBundleVisibility_def)
  next
    case None
    let ?d2 = "showUnbundledEmails d1"
    have "labels_frame {} d1 ?d2" "hidden_frame (set (members s l)) d1 ?d2"
      using showUnbundledEmails_frame by simp_all
    moreover have "labels_frame {} ?d2 (snd (resetBundleDomsPosition B s ?d2))"
      "hidden_frame (set (members s l)) ?d2 (snd (resetBundleDomsPosition B s ?d2))"
      using resetBundleDomsPosition_frame [of ?d2 B s] by (simp_all add: hidden_frame_heap)
    ultimately have "labels_frame {} d (snd (resetBundleDomsPosition B s ?d2))"
      "hidden_frame (set (members s l)) d (snd (resetBundleDomsPosition B s ?d2))"
      using h by (blast intro: labels_frame_trans hidden_frame_trans)+
    with Pair None show ?thesis by (simp add: turnOffBundleVisibility_def)
  qed
qed
















text \<open>
  Claim C3 fails on the code.  \<^verbatim>\<open>turnOffBundleVisibility\<close> computes the bundles ordered after
  the one it closes and passes them to \<^verbatim>\<open>resetBundleDomsPosition\<close>, which takes no argument:
  with the flag already cleared no bundle is open, and every bundle is repositioned to
  its most recent member.  Below, Home is open and is the last label of the ordering, so
  no bundle is ordered after it; a click on Work closes Home first, and that step moves
  the row of Work, ordered before Home, up to the new row 4.
\<close>

theorem close_repositions_earlier_bundle:
  "getVisibleBundleName (fst new_work) = Some ''Home''
   \<and> obj_get (bundlesVisibility (fst new_work)) ''Work'' = Some False
   \<and> bundles (fst new_work) = [(''Work'', [4, 0, 2]), (''Home'', [2, 3])]
   \<and> bundlesOrder (fst new_work) = [''Work'', ''Home'']
   \<and> bundles_after (fst new_work) ''Home'' = []
   \<and> row_tags (visible_rows (snd new_work))
       = [Inr 4, Inl ''Work'', Inr 0, Inr 1, Inl ''Home'', Inr 2, Inr 3]
   \<and> fst (close_visible demo_browser ''Work'' new_work) = None
   \<and> row_tags (visible_rows (snd (snd (close_visible demo_browser ''Work'' new_work))))
       = [Inl ''Work'', Inr 4, Inr 0, Inr 1, Inl ''Home'', Inr 2, Inr 3]"
  by code_simp

end
